theory Spec2Isabelle
  imports Complex_Main
begin

section \<open>Connection points of viznet nodes (viznet/edgenode.py)\<close>

text \<open>
  The development embeds the classes \<open>Node\<close>, \<open>Edge\<close> and \<open>Pin\<close> of
  \<^verbatim>\<open>viznet/edgenode.py\<close>. Coordinates are numpy floats in the source; here they
  are real numbers, so arithmetic is exact (rounding and overflow are outside the model).
  The one place where numpy produces \<open>nan\<close> instead of raising, the mean of an empty
  slice, is kept visible as the result \<open>Inl NanResult\<close>.
\<close>

subsection \<open>Arrays of length two\<close>

type_synonym point = "real \<times> real"

definition padd :: "point \<Rightarrow> point \<Rightarrow> point" where
  "padd p q = (fst p + fst q, snd p + snd q)"

definition psub :: "point \<Rightarrow> point \<Rightarrow> point" where
  "psub p q = (fst p - fst q, snd p - snd q)"

definition pscale :: "real \<Rightarrow> point \<Rightarrow> point" where
  "pscale k p = (k * fst p, k * snd p)"

definition pdiv :: "point \<Rightarrow> real \<Rightarrow> point" where
  "pdiv p k = (fst p / k, snd p / k)"

definition dot :: "point \<Rightarrow> point \<Rightarrow> real" where
  "dot p q = fst p * fst q + snd p * snd q"

subsection \<open>Exceptions\<close>

text \<open>
  \<open>RuntimeError\<close> is what a bare \<^verbatim>\<open>raise\<close> outside an exception handler raises;
  \<open>ValueError\<close> is what numpy raises for \<^verbatim>\<open>max\<close> and \<^verbatim>\<open>argmax\<close> of an empty array
  and Python for unpacking a list of the wrong length.
\<close>

datatype error =
    AttributeError string
  | KeyError string
  | ValueError
  | RuntimeError
  | NanResult

subsection \<open>numpy reductions\<close>

text \<open>
  \<^verbatim>\<open>a.mean()\<close>. On an empty array numpy yields \<open>nan\<close>; every use below tests for
  emptiness before the value is looked at.
\<close>

definition mean :: "real list \<Rightarrow> real" where
  "mean xs = sum_list xs / real (length xs)"

text \<open>\<^verbatim>\<open>a.max()\<close>: raises on an empty array.\<close>

definition amax :: "real list \<Rightarrow> error + real" where
  "amax xs = (case xs of [] \<Rightarrow> Inl ValueError | x # r \<Rightarrow> Inr (fold max r x))"

text \<open>
  \<^verbatim>\<open>np.argmax(a)\<close>: the index of the first occurrence of the maximum; raises on an
  empty array. The scan keeps the best index and value seen so far and replaces them
  only by a strictly larger value.
\<close>

fun argmax_from :: "nat \<Rightarrow> real \<Rightarrow> nat \<Rightarrow> real list \<Rightarrow> nat" where
  "argmax_from best bv i [] = best"
| "argmax_from best bv i (x # xs) =
     (if bv < x then argmax_from i x (Suc i) xs else argmax_from best bv (Suc i) xs)"

definition argmax :: "real list \<Rightarrow> error + nat" where
  "argmax xs = (case xs of [] \<Rightarrow> Inl ValueError | x # r \<Rightarrow> Inr (argmax_from 0 x 1 r))"

subsection \<open>Patches and nodes\<close>

text \<open>
  The matplotlib patch held by a node, as far as the node reads it: a circle has
  \<^verbatim>\<open>center\<close> and \<^verbatim>\<open>radius\<close>, a rectangle \<^verbatim>\<open>get_xy()\<close>, \<^verbatim>\<open>get_width()\<close> and
  \<^verbatim>\<open>get_height()\<close>; of a polygon the node reads only the vertex path.
  \<open>OtherPatch\<close> stands for every patch class the \<^verbatim>\<open>isinstance\<close> chains do not name.
\<close>

datatype patch =
    Circle point real
  | Rectangle point real real
  | Polygon
  | OtherPatch

text \<open>
  \<^verbatim>\<open>Node\<close>: \<open>shape\<close> is \<^verbatim>\<open>style[1]\<close>, \<open>path\<close> is \<^verbatim>\<open>obj.get_verts()\<close> as stored by
  \<^verbatim>\<open>__init__\<close> (an array of points; matplotlib closes it, repeating the first vertex
  at the end). The drawing context \<^verbatim>\<open>ax\<close> plays no part in the geometry.
\<close>

record node =
  obj :: patch
  shape :: string
  path :: "point list"

datatype Pin = Pin point

fun Pin_position :: "Pin \<Rightarrow> point" where
  "Pin_position (Pin p) = p"

record Edge =
  start_xy :: point
  end_xy :: point

definition Edge_position :: "Edge \<Rightarrow> point" where
  "Edge_position e = pdiv (padd (start_xy e) (end_xy e)) 2"

text \<open>\<^verbatim>\<open>Node.position\<close>: the centre of a node.\<close>

definition position :: "node \<Rightarrow> error + point" where
  "position n =
     (case obj n of
        Circle c r \<Rightarrow> Inr c
      | Rectangle xy w h \<Rightarrow> Inr (fst xy + w / 2, snd xy + h / 2)
      | _ \<Rightarrow>
          (let vs = butlast (path n)
           in if vs = [] then Inl NanResult
              else Inr (mean (map fst vs), mean (map snd vs))))"

text \<open>\<^verbatim>\<open>abs(ys - ys.mean()).max() * 2\<close>\<close>

definition spread :: "real list \<Rightarrow> error + real" where
  "spread ys =
     (case amax (map (\<lambda>y. \<bar>y - mean ys\<bar>) ys) of
        Inl e \<Rightarrow> Inl e
      | Inr m \<Rightarrow> Inr (m * 2))"

definition height :: "node \<Rightarrow> error + real" where
  "height n =
     (case obj n of
        Circle c r \<Rightarrow> Inr (r * 2)
      | Rectangle xy w h \<Rightarrow> Inr h
      | Polygon \<Rightarrow> spread (map snd (butlast (path n)))
      | OtherPatch \<Rightarrow> Inl RuntimeError)"

definition width :: "node \<Rightarrow> error + real" where
  "width n =
     (case obj n of
        Circle c r \<Rightarrow> Inr (r * 2)
      | Rectangle xy w h \<Rightarrow> Inr w
      | Polygon \<Rightarrow> spread (map fst (butlast (path n)))
      | OtherPatch \<Rightarrow> Inl RuntimeError)"

text \<open>\<^verbatim>\<open>Node._offset_dict\<close>: the dictionary, in the order it is written.\<close>

definition offset_dict :: "node \<Rightarrow> error + (string \<times> point) list" where
  "offset_dict n =
     (case width n of
        Inl e \<Rightarrow> Inl e
      | Inr w \<Rightarrow>
          (case height n of
             Inl e \<Rightarrow> Inl e
           | Inr h \<Rightarrow>
               Inr [(''top'', (0, h / 2)),
                    (''bottom'', (0, - h / 2)),
                    (''left'', (- w / 2, 0)),
                    (''right'', (w / 2, 0))]))"

text \<open>\<^verbatim>\<open>d[k]\<close> on a dictionary.\<close>

definition getitem :: "(string \<times> point) list \<Rightarrow> string \<Rightarrow> error + point" where
  "getitem d k = (case map_of d k of None \<Rightarrow> Inl (KeyError k) | Some v \<Rightarrow> Inr v)"

text \<open>
  \<^verbatim>\<open>name.split('_')\<close>: one more piece than there are underscores. The result is
  never empty, so the first branch of the inner case is there for totality only.
\<close>

fun split_us :: "string \<Rightarrow> string list" where
  "split_us [] = [[]]"
| "split_us (c # cs) =
     (if c = CHR ''_'' then [] # split_us cs
      else (case split_us cs of
              [] \<Rightarrow> [[c]]
            | w # ws \<Rightarrow> (c # w) # ws))"

text \<open>The body of the \<^verbatim>\<open>try\<close> in \<^verbatim>\<open>Node.__getattr__\<close>, after the split.\<close>

definition getattr_try :: "node \<Rightarrow> string \<Rightarrow> string \<Rightarrow> error + Pin" where
  "getattr_try n d1 d2 =
     (case offset_dict n of
        Inl e \<Rightarrow> Inl e
      | Inr od \<Rightarrow>
          (case getitem od d1 of
             Inl e \<Rightarrow> Inl e
           | Inr o1 \<Rightarrow>
               (case getitem od d2 of
                  Inl e \<Rightarrow> Inl e
                | Inr o2 \<Rightarrow>
                    (case position n of
                       Inl e \<Rightarrow> Inl e
                     | Inr p \<Rightarrow> Inr (Pin (padd (padd o1 (pscale 0.8 o2)) p))))))"

text \<open>
  \<^verbatim>\<open>Node.__getattr__\<close>: the unpacking \<^verbatim>\<open>d1, d2 = name.split('_')\<close> needs exactly two
  pieces, and the bare \<^verbatim>\<open>except\<close> turns every exception into \<^verbatim>\<open>AttributeError(name)\<close>.
\<close>

definition getattr :: "node \<Rightarrow> string \<Rightarrow> error + Pin" where
  "getattr n name =
     (case split_us name of
        [d1, d2] \<Rightarrow>
          (case getattr_try n d1 d2 of
             Inl e \<Rightarrow> Inl (AttributeError name)
           | Inr p \<Rightarrow> Inr p)
      | _ \<Rightarrow> Inl (AttributeError name))"

text \<open>
  The argument \<^verbatim>\<open>direction\<close> of \<^verbatim>\<open>Node.pin\<close> is a string or a float, and \<^verbatim>\<open>align\<close>
  is \<^verbatim>\<open>None\<close> or anything with a \<^verbatim>\<open>position\<close>: a node, an edge or a pin.
\<close>

datatype direction = Str string | Theta real

datatype EdgeNode = ANode node | AnEdge Edge | APin Pin

fun EdgeNode_position :: "EdgeNode \<Rightarrow> error + point" where
  "EdgeNode_position (ANode n) = position n"
| "EdgeNode_position (AnEdge e) = Inr (Edge_position e)"
| "EdgeNode_position (APin p) = Inr (Pin_position p)"

text \<open>
  \<^verbatim>\<open>Node.pin\<close>. The function \<^verbatim>\<open>intersection\<close> of \<^verbatim>\<open>viznet/utils.py\<close> serves the
  float branch only and is a parameter here.
\<close>

definition pin ::
  "(point list \<Rightarrow> real \<Rightarrow> point \<Rightarrow> error + point) \<Rightarrow>
   node \<Rightarrow> direction \<Rightarrow> EdgeNode option \<Rightarrow> error + Pin" where
  "pin intersection n direction align =
     (case direction of
        Str s \<Rightarrow>
          (case offset_dict n of
             Inl e \<Rightarrow> Inl e
           | Inr od \<Rightarrow>
               (case getitem od s of
                  Inl e \<Rightarrow> Inl e
                | Inr off \<Rightarrow>
                    (case position n of
                       Inl e \<Rightarrow> Inl e
                     | Inr p \<Rightarrow>
                         (let loc = padd off p
                          in case align of
                               None \<Rightarrow> Inr (Pin loc)
                             | Some a \<Rightarrow>
                                 (case EdgeNode_position a of
                                    Inl e \<Rightarrow> Inl e
                                  | Inr target \<Rightarrow>
                                      if s \<in> set [''bottom'', ''top'']
                                      then Inr (Pin (fst target, snd loc))
                                      else if s \<in> set [''left'', ''right'']
                                      then Inr (Pin (fst loc, snd target))
                                      else Inl RuntimeError)))))
      | Theta t \<Rightarrow>
          (case (case align of None \<Rightarrow> position n | Some a \<Rightarrow> EdgeNode_position a) of
             Inl e \<Rightarrow> Inl e
           | Inr al \<Rightarrow>
               (case intersection (path n) t al of
                  Inl e \<Rightarrow> Inl e
                | Inr loc \<Rightarrow> Inr (Pin loc))))"

text \<open>
  \<^verbatim>\<open>Node.get_connection_point\<close>. In the circle branch \<^verbatim>\<open>self.obj.center\<close> exists
  only on a circle patch. In the other branch the candidates are the path without its
  last point followed by the centres of consecutive points of the path.
\<close>

definition candidates :: "point list \<Rightarrow> point list" where
  "candidates vertices =
     butlast vertices @ map2 (\<lambda>a b. pdiv (padd a b) 2) (butlast vertices) (tl vertices)"

definition distance :: "point \<Rightarrow> point \<Rightarrow> point list \<Rightarrow> real list" where
  "distance pos direction cs =
     (let vdirection = (- snd direction, fst direction)
      in map (\<lambda>c. dot (psub c pos) direction - \<bar>dot (psub c pos) vdirection\<bar>) cs)"

definition get_connection_point :: "node \<Rightarrow> point \<Rightarrow> error + point" where
  "get_connection_point n direction =
     (if shape n = ''circle'' then
        (case obj n of
           Circle c r \<Rightarrow> Inr (padd c (pscale r direction))
         | _ \<Rightarrow> Inl (AttributeError ''center''))
      else
        (let cs = candidates (path n)
         in case position n of
              Inl e \<Rightarrow> (if cs = [] then Inl ValueError else Inl e)
            | Inr pos \<Rightarrow>
                (case argmax (distance pos direction cs) of
                   Inl e \<Rightarrow> Inl e
                 | Inr i \<Rightarrow> Inr (cs ! i))))"

text \<open>\<^verbatim>\<open>Node.center\<close>\<close>

definition center :: "node \<Rightarrow> error + Pin" where
  "center n = (case position n of Inl e \<Rightarrow> Inl e | Inr p \<Rightarrow> Inr (Pin p))"

subsection \<open>Notions of the specification\<close>

text \<open>
  The specification speaks of shapes of three kinds. A node is such a shape when its
  patch is a circle, a rectangle or a polygon; a polygon needs a path of at least two
  points, so that a vertex remains once the closing point is dropped.
\<close>

definition is_shape :: "node \<Rightarrow> bool" where
  "is_shape n =
     (case obj n of
        Circle c r \<Rightarrow> True
      | Rectangle xy w h \<Rightarrow> True
      | Polygon \<Rightarrow> 2 \<le> length (path n)
      | OtherPatch \<Rightarrow> False)"

text \<open>The four single tokens, and the compound names built from two of them.\<close>

definition tokens :: "string list" where
  "tokens = [''top'', ''bottom'', ''left'', ''right'']"

definition compound_names :: "string list" where
  "compound_names = concat (map (\<lambda>d1. map (\<lambda>d2. d1 @ ''_'' @ d2) tokens) tokens)"

text \<open>
  The specification's offset of a token: half the height up or down for top and bottom,
  half the width left or right for left and right.
\<close>

definition offset :: "real \<Rightarrow> real \<Rightarrow> string \<Rightarrow> point" where
  "offset w h d =
     (if d = ''top'' then (0, h / 2)
      else if d = ''bottom'' then (0, - (h / 2))
      else if d = ''left'' then (- (w / 2), 0)
      else (w / 2, 0))"



text \<open>
  The specification's candidate list of a closed boundary with vertices \<open>vs\<close>: the
  vertices, then the midpoint of every edge, the last edge leading back to the first
  vertex. Its score of a candidate uses the direction turned by a quarter turn.
\<close>

definition mid :: "point \<Rightarrow> point \<Rightarrow> point" where
  "mid a b = ((fst a + fst b) / 2, (snd a + snd b) / 2)"

definition ring_candidates :: "point list \<Rightarrow> point list" where
  "ring_candidates vs =
     vs @ map (\<lambda>i. mid (vs ! i) (vs ! (Suc i mod length vs))) [0..<length vs]"

definition perp :: "point \<Rightarrow> point" where
  "perp d = (- snd d, fst d)"

definition score :: "point \<Rightarrow> point \<Rightarrow> point \<Rightarrow> real" where
  "score ctr d c = dot (psub c ctr) d - \<bar>dot (psub c ctr) (perp d)\<bar>"

section \<open>Properties\<close>

subsection \<open>Auxiliary facts\<close>

lemma argmax_from_keep:
  "\<forall>x \<in> set xs. x \<le> bv \<Longrightarrow> argmax_from best bv i xs = best"
  by (induction xs arbitrary: i) auto

lemma position_defined:
  "butlast (path n) \<noteq> [] \<Longrightarrow> \<exists>p. position n = Inr p"
  by (cases "obj n") (simp_all add: position_def Let_def)

lemma candidates_Cons2: "candidates (v # w # rest) = v # tl (candidates (v # w # rest))"
  by (simp add: candidates_def)

subsection \<open>Direction vectors\<close>

text \<open>
  C1 (as the code has it). The resolver has no check for a zero-length direction and
  raises nothing for it: on a circle the direction \<open>(0, 0)\<close> gives the centre, and on
  any other shape whose path has at least two points every candidate scores \<open>0\<close>, so
  the first candidate, the first point of the path, is returned.
\<close>

theorem zero_direction_returns_point:
  "(shape n = ''circle'' \<longrightarrow> obj n = Circle c r \<longrightarrow> get_connection_point n (0, 0) = Inr c) \<and>
   (shape n \<noteq> ''circle'' \<longrightarrow> path n = v # w # rest \<longrightarrow> get_connection_point n (0, 0) = Inr v)"
proof (intro conjI impI)
  assume "shape n = ''circle''" "obj n = Circle c r"
  then show "get_connection_point n (0, 0) = Inr c"
    by (simp add: get_connection_point_def padd_def pscale_def)
next
  assume ns: "shape n \<noteq> ''circle''" and p: "path n = v # w # rest"
  from p have "butlast (path n) \<noteq> []" by simp
  then obtain pos where pos: "position n = Inr pos" using position_defined by blast
  obtain cs where cs: "candidates (path n) = v # cs"
    using candidates_Cons2 [of v w rest] p by simp
  have "distance pos (0, 0) (v # cs) = 0 # map (\<lambda>c. 0) cs"
    by (simp add: distance_def dot_def)
  then have "argmax (distance pos (0, 0) (v # cs)) = Inr 0"
    by (simp add: argmax_def argmax_from_keep)
  then show "get_connection_point n (0, 0) = Inr v"
    using ns pos cs by (simp add: get_connection_point_def)
qed

theorem zero_direction_returns_point_witness:
  "get_connection_point \<lparr>obj = Circle (1, 2) 3, shape = ''circle'', path = []\<rparr> (0, 0)
     = Inr (1, 2) \<and>
   get_connection_point \<lparr>obj = Rectangle (0, 0) 1 1, shape = ''rectangle'',
      path = [(0, 0), (1, 0), (1, 1), (0, 1), (0, 0)]\<rparr> (0, 0) = Inr (0, 0)"
  using
    zero_direction_returns_point
      [of "\<lparr>obj = Circle (1, 2) 3, shape = ''circle'', path = []\<rparr>" "(1, 2)" 3]
    zero_direction_returns_point
      [of "\<lparr>obj = Rectangle (0, 0) 1 1, shape = ''rectangle'',
            path = [(0, 0), (1, 0), (1, 1), (0, 1), (0, 0)]\<rparr>"
          _ _ "(0, 0)" "(1, 0)" "[(1, 1), (0, 1), (0, 0)]"]
  by simp

text \<open>
  C1 (as stated) fails: a triangle asked for the direction \<open>(0, 0)\<close> returns its first
  vertex instead of failing.
\<close>

theorem zero_direction_counterexample:
  "get_connection_point \<lparr>obj = Polygon, shape = ''triangle'',
      path = [(0, 0), (4, 0), (2, 3), (0, 0)]\<rparr> (0, 0) = Inr (0, 0)"
  by (simp add: get_connection_point_def candidates_def position_def mean_def distance_def
      argmax_def dot_def psub_def padd_def pdiv_def)




subsection \<open>First maximum\<close>

lemma argmax_from_first_max:
  "b < length ys \<Longrightarrow> bv = ys ! b \<Longrightarrow> \<forall>j<length ys. ys ! j \<le> ys ! b \<Longrightarrow>
   \<forall>j<b. ys ! j < ys ! b \<Longrightarrow> k = argmax_from b bv (length ys) xs \<Longrightarrow>
   k < length (ys @ xs) \<and> (\<forall>j<length (ys @ xs). (ys @ xs) ! j \<le> (ys @ xs) ! k) \<and>
   (\<forall>j<k. (ys @ xs) ! j < (ys @ xs) ! k)"
proof (induction xs arbitrary: ys b bv)
  case Nil
  then show ?case by simp
next
  case (Cons x xs)
  let ?ys = "ys @ [x]"
  show ?case
  proof (cases "bv < x")
    case True
    have k: "k = argmax_from (length ys) x (length ?ys) xs"
      using Cons.prems(5) True by simp
    have le: "\<forall>j<length ?ys. ?ys ! j \<le> ?ys ! length ys"
    proof (intro allI impI)
      fix j assume "j < length ?ys"
      then show "?ys ! j \<le> ?ys ! length ys"
        using Cons.prems(2,3) True by (cases "j < length ys") (auto simp: nth_append less_Suc_eq)
    qed
    have lt: "\<forall>j<length ys. ?ys ! j < ?ys ! length ys"
      using Cons.prems(2,3) True by (auto simp: nth_append)
    have "k < length (?ys @ xs) \<and> (\<forall>j<length (?ys @ xs). (?ys @ xs) ! j \<le> (?ys @ xs) ! k) \<and>
      (\<forall>j<k. (?ys @ xs) ! j < (?ys @ xs) ! k)"
      by (rule Cons.IH [of "length ys" ?ys x]) (use le lt k in simp_all)
    then show ?thesis by simp
  next
    case False
    have k: "k = argmax_from b bv (length ?ys) xs"
      using Cons.prems(5) False by simp
    have bv: "bv = ?ys ! b" using Cons.prems(1,2) by (simp add: nth_append)
    have le: "\<forall>j<length ?ys. ?ys ! j \<le> ?ys ! b"
    proof (intro allI impI)
      fix j assume "j < length ?ys"
      then show "?ys ! j \<le> ?ys ! b"
        using Cons.prems(1,2,3) False by (cases "j < length ys") (auto simp: nth_append less_Suc_eq)
    qed
    have lt: "\<forall>j<b. ?ys ! j < ?ys ! b"
      using Cons.prems(1,4) by (auto simp: nth_append)
    have "k < length (?ys @ xs) \<and> (\<forall>j<length (?ys @ xs). (?ys @ xs) ! j \<le> (?ys @ xs) ! k) \<and>
      (\<forall>j<k. (?ys @ xs) ! j < (?ys @ xs) ! k)"
      by (rule Cons.IH [of b ?ys bv]) (use Cons.prems(1) bv le lt k in simp_all)
    then show ?thesis by simp
  qed
qed

lemma argmax_first_max:
  assumes "xs \<noteq> []"
  shows "\<exists>k. argmax xs = Inr k \<and> k < length xs \<and> (\<forall>j<length xs. xs ! j \<le> xs ! k) \<and>
    (\<forall>j<k. xs ! j < xs ! k)"
proof -
  obtain x r where xs: "xs = x # r" using assms by (cases xs) auto
  have "argmax_from 0 x 1 r < length ([x] @ r) \<and>
      (\<forall>j<length ([x] @ r). ([x] @ r) ! j \<le> ([x] @ r) ! argmax_from 0 x 1 r) \<and>
      (\<forall>j<argmax_from 0 x 1 r. ([x] @ r) ! j < ([x] @ r) ! argmax_from 0 x 1 r)"
    by (rule argmax_from_first_max [of 0 "[x]" x]) simp_all
  then show ?thesis using xs by (simp add: argmax_def)
qed







subsection \<open>Candidates of a rectangle or polygon\<close>

lemma ring_candidates_closed:
  assumes "vs \<noteq> []"
  shows "candidates (vs @ [hd vs]) = ring_candidates vs"
proof -
  have tl: "tl (vs @ [hd vs]) = tl vs @ [hd vs]" using assms by simp
  have nth: "(tl vs @ [hd vs]) ! i = vs ! (Suc i mod length vs)" if "i < length vs" for i
  proof (cases "Suc i < length vs")
    case True
    then have "i < length (tl vs)" by simp
    then show ?thesis using True by (simp add: nth_append nth_tl del: length_tl)
  next
    case False
    then have i: "i = length (tl vs)" using that by simp
    then have "Suc i mod length vs = 0" using assms by simp
    moreover have "(tl vs @ [hd vs]) ! i = hd vs" using i by (simp add: nth_append del: length_tl)
    ultimately show ?thesis using assms by (simp add: hd_conv_nth)
  qed
  have "map2 (\<lambda>a b. pdiv (padd a b) 2) vs (tl vs @ [hd vs])
      = map (\<lambda>i. mid (vs ! i) (vs ! (Suc i mod length vs))) [0..<length vs]"
    using assms nth by (intro nth_equalityI) (simp_all add: mid_def pdiv_def padd_def)
  then show ?thesis by (simp add: candidates_def ring_candidates_def tl)
qed

lemma distance_score: "distance pos d cs = map (score pos d) cs"
  by (simp add: distance_def score_def perp_def)

text \<open>
  C3. On a shape other than a circle whose path is the closed ring of the vertices
  \<open>vs\<close>, the resolver's candidates are the vertices followed by the midpoints of all
  edges, the closing edge included, and the resolver returns the candidate of index
  \<open>k\<close> where \<open>k\<close> is the first index of the maximal score
  \<open>dot (c - centroid) d - \<bar>dot (c - centroid) (perp d)\<bar>\<close>; the result is a candidate.
\<close>

theorem polygon_connection_point:
  assumes "shape n \<noteq> ''circle''" and "path n = vs @ [hd vs]" and "vs \<noteq> []"
  shows "\<exists>ctr k. position n = Inr ctr \<and> k < length (ring_candidates vs) \<and>
     get_connection_point n d = Inr (ring_candidates vs ! k) \<and>
     ring_candidates vs ! k \<in> set (ring_candidates vs) \<and>
     (\<forall>j<length (ring_candidates vs).
        score ctr d (ring_candidates vs ! j) \<le> score ctr d (ring_candidates vs ! k)) \<and>
     (\<forall>j<k. score ctr d (ring_candidates vs ! j) < score ctr d (ring_candidates vs ! k))"
proof -
  let ?cs = "ring_candidates vs"
  have cs: "candidates (path n) = ?cs" using assms(2,3) ring_candidates_closed by simp
  have ne: "?cs \<noteq> []" using assms(3) by (simp add: ring_candidates_def)
  have "butlast (path n) \<noteq> []" using assms(2,3) by simp
  then obtain ctr where ctr: "position n = Inr ctr" using position_defined by blast
  from ne have "map (score ctr d) ?cs \<noteq> []" by simp
  from argmax_first_max [OF this] obtain k where k: "argmax (map (score ctr d) ?cs) = Inr k"
    "k < length ?cs" "\<forall>j<length ?cs. score ctr d (?cs ! j) \<le> score ctr d (?cs ! k)"
    "\<forall>j<k. score ctr d (?cs ! j) < score ctr d (?cs ! k)"
    by auto
  have "get_connection_point n d = Inr (?cs ! k)"
    using assms(1) cs ctr k(1) by (simp add: get_connection_point_def distance_score)
  then show ?thesis using ctr k by auto
qed

theorem polygon_connection_point_witness:
  "\<exists>p. get_connection_point \<lparr>obj = Rectangle (0, 0) 1 1, shape = ''rectangle'',
      path = [(0, 0), (1, 0), (1, 1), (0, 1), (0, 0)]\<rparr> (1, 1) = Inr p \<and>
    p \<in> set (ring_candidates [(0, 0), (1, 0), (1, 1), (0, 1)])"
proof -
  let ?n = "\<lparr>obj = Rectangle (0, 0) 1 1, shape = ''rectangle'',
      path = [(0, 0), (1, 0), (1, 1), (0, 1), (0, 0)]\<rparr>"
  let ?vs = "[(0, 0), (1, 0), (1, 1), (0, 1)] :: point list"
  have h1: "shape ?n \<noteq> ''circle''" by simp
  have h2: "path ?n = ?vs @ [hd ?vs]" by simp
  have h3: "?vs \<noteq> []" by simp
  from polygon_connection_point [OF h1 h2 h3, of "(1, 1)"] show ?thesis by blast
qed

text \<open>The unit square of the specification: the direction \<open>(1, 1)\<close> gives the corner.\<close>

lemma unit_square_diagonal:
  "get_connection_point \<lparr>obj = Rectangle (0, 0) 1 1, shape = ''rectangle'',
      path = [(0, 0), (1, 0), (1, 1), (0, 1), (0, 0)]\<rparr> (1, 1) = Inr (1, 1)"
  by (simp add: get_connection_point_def candidates_def position_def distance_def
      argmax_def dot_def psub_def padd_def pdiv_def)

subsection \<open>Centre and extent\<close>

lemma amax_Max: "xs \<noteq> [] \<Longrightarrow> amax xs = Inr (Max (set xs))"
  by (cases xs) (simp_all add: amax_def Max.set_eq_fold [symmetric])

lemma spread_Max:
  "vs \<noteq> [] \<Longrightarrow> spread (map f vs) = Inr (2 * Max ((\<lambda>v. \<bar>f v - mean (map f vs)\<bar>) ` set vs))"
  by (simp add: spread_def amax_Max image_image)

lemma spread_defined: "spread ys = Inr m \<Longrightarrow> ys \<noteq> []"
  by (auto simp: spread_def amax_def)

text \<open>
  C7. For a polygon whose path is the closed ring of the vertices \<open>vs\<close>, the position
  is the mean of \<open>vs\<close> (the closing point left out), and the width and the height are
  twice the largest absolute deviation of the vertices' x and y coordinates from it.
\<close>

theorem polygon_centroid_and_extent:
  assumes "obj n = Polygon" and "path n = vs @ [hd vs]" and "vs \<noteq> []"
  shows "\<exists>cx cy. cx = (\<Sum>v\<leftarrow>vs. fst v) / real (length vs) \<and>
      cy = (\<Sum>v\<leftarrow>vs. snd v) / real (length vs) \<and>
      position n = Inr (cx, cy) \<and>
      width n = Inr (2 * Max ((\<lambda>v. \<bar>fst v - cx\<bar>) ` set vs)) \<and>
      height n = Inr (2 * Max ((\<lambda>v. \<bar>snd v - cy\<bar>) ` set vs))"
proof -
  have b: "butlast (path n) = vs" using assms(2) by simp
  have "position n = Inr (mean (map fst vs), mean (map snd vs))"
    using assms(1,3) b by (simp add: position_def)
  moreover have "width n = Inr (2 * Max ((\<lambda>v. \<bar>fst v - mean (map fst vs)\<bar>) ` set vs))"
    using assms(1,3) b by (simp add: width_def spread_Max)
  moreover have "height n = Inr (2 * Max ((\<lambda>v. \<bar>snd v - mean (map snd vs)\<bar>) ` set vs))"
    using assms(1,3) b by (simp add: height_def spread_Max)
  ultimately show ?thesis by (simp add: mean_def)
qed

theorem polygon_centroid_and_extent_witness:
  "position \<lparr>obj = Polygon, shape = ''triangle'', path = [(0, 0), (4, 0), (2, 3), (0, 0)]\<rparr>
     = Inr (2, 1) \<and>
   width \<lparr>obj = Polygon, shape = ''triangle'', path = [(0, 0), (4, 0), (2, 3), (0, 0)]\<rparr>
     = Inr 4 \<and>
   height \<lparr>obj = Polygon, shape = ''triangle'', path = [(0, 0), (4, 0), (2, 3), (0, 0)]\<rparr>
     = Inr 4"
  using polygon_centroid_and_extent
    [of "\<lparr>obj = Polygon, shape = ''triangle'', path = [(0, 0), (4, 0), (2, 3), (0, 0)]\<rparr>"
        "[(0, 0), (4, 0), (2, 3)]"]
  by simp

subsection \<open>Symbolic directions\<close>

lemma is_shape_defined:
  assumes "is_shape n"
  shows "\<exists>w h c. width n = Inr w \<and> height n = Inr h \<and> position n = Inr c"
proof (cases "obj n")
  case Polygon
  then have "butlast (path n) \<noteq> []"
    using assms by (cases "path n" rule: rev_cases) (auto simp: is_shape_def)
  then show ?thesis
    using Polygon
    by (simp add: width_def height_def position_def Let_def spread_def amax_def
        split: list.splits)
qed (use assms in \<open>simp_all add: is_shape_def width_def height_def position_def\<close>)

lemma width_defined_position: "width n = Inr w \<Longrightarrow> \<exists>c. position n = Inr c"
  by (cases "obj n") (auto simp: width_def position_def Let_def dest: spread_defined)

lemma offset_dict_getitem:
  assumes "width n = Inr w" and "height n = Inr h"
  shows "\<exists>od. offset_dict n = Inr od \<and>
    (\<forall>s. getitem od s = (if s \<in> set tokens then Inr (offset w h s) else Inl (KeyError s)))"
proof -
  let ?od = "[(''top'', (0, h / 2)), (''bottom'', (0, - h / 2)),
              (''left'', (- w / 2, 0)), (''right'', (w / 2, 0))]"
  have "offset_dict n = Inr ?od" using assms by (simp add: offset_dict_def)
  moreover have "getitem ?od s = (if s \<in> set tokens then Inr (offset w h s) else Inl (KeyError s))"
    for s
    by (simp add: tokens_def getitem_def offset_def)
  ultimately show ?thesis by blast
qed

lemma pin_unaligned:
  assumes "width n = Inr w" and "height n = Inr h" and "position n = Inr c"
    and "s \<in> set tokens"
  shows "pin I n (Str s) None = Inr (Pin (padd (offset w h s) c))"
proof -
  obtain od where "offset_dict n = Inr od" "getitem od s = Inr (offset w h s)"
    using offset_dict_getitem [OF assms(1,2)] assms(4) by auto
  then show ?thesis using assms(3) by (simp add: pin_def)
qed

lemma pin_aligned:
  assumes "width n = Inr w" and "height n = Inr h" and "position n = Inr c"
    and "s \<in> set tokens" and "EdgeNode_position a = Inr P"
  shows "pin I n (Str s) (Some a) =
     Inr (Pin (if s \<in> set [''bottom'', ''top''] then (fst P, snd (padd (offset w h s) c))
               else (fst (padd (offset w h s) c), snd P)))"
proof -
  obtain od where "offset_dict n = Inr od" "getitem od s = Inr (offset w h s)"
    using offset_dict_getitem [OF assms(1,2)] assms(4) by auto
  moreover have "s \<in> set [''left'', ''right'']" if "s \<notin> set [''bottom'', ''top'']"
    using that assms(4) by (auto simp: tokens_def)
  ultimately show ?thesis using assms(3,5) by (simp add: pin_def Let_def)
qed

lemma split_us_nonempty: "split_us s \<noteq> []"
  by (induction s) (auto split: list.splits)

lemma split_us_plain: "CHR ''_'' \<notin> set d \<Longrightarrow> split_us d = [d]"
  by (induction d) auto

lemma split_us_append:
  "CHR ''_'' \<notin> set d1 \<Longrightarrow> split_us (d1 @ CHR ''_'' # rest) = d1 # split_us rest"
  by (induction d1) auto

lemma split_us_one: "split_us cs = [d] \<Longrightarrow> cs = d"
  by (induction cs arbitrary: d) (auto simp: split_us_nonempty split: if_splits list.splits)

lemma split_us_two:
  "split_us name = [d1, d2] \<Longrightarrow> name = d1 @ ''_'' @ d2"
proof (induction name arbitrary: d1)
  case Nil
  then show ?case by simp
next
  case (Cons c cs)
  show ?case
  proof (cases "c = CHR ''_''")
    case True
    with Cons.prems have "d1 = []" "split_us cs = [d2]" by simp_all
    then show ?thesis using True split_us_one by simp
  next
    case False
    with Cons.prems obtain w where "split_us cs = [w, d2]" "d1 = c # w"
      by (auto split: list.splits)
    with Cons.IH [of w] show ?thesis by simp
  qed
qed

lemma token_no_underscore: "d \<in> set tokens \<Longrightarrow> CHR ''_'' \<notin> set d"
  by (auto simp: tokens_def)

lemma split_us_compound:
  "d1 \<in> set tokens \<Longrightarrow> d2 \<in> set tokens \<Longrightarrow> split_us (d1 @ ''_'' @ d2) = [d1, d2]"
  by (simp add: split_us_append split_us_plain token_no_underscore)

lemma compound_names_iff:
  "name \<in> set compound_names \<longleftrightarrow> (\<exists>d1\<in>set tokens. \<exists>d2\<in>set tokens. name = d1 @ ''_'' @ d2)"
  by (auto simp: compound_names_def)

lemma getattr_try_Inr:
  assumes "getattr_try n d1 d2 = Inr p"
  shows "d1 \<in> set tokens \<and> d2 \<in> set tokens"
proof -
  from assms obtain od o1 o2 where od: "offset_dict n = Inr od"
    and g: "getitem od d1 = Inr o1" "getitem od d2 = Inr o2"
    by (auto simp: getattr_try_def split: sum.splits)
  from od obtain w h where "width n = Inr w" "height n = Inr h"
    by (auto simp: offset_dict_def split: sum.splits)
  from offset_dict_getitem [OF this] od g show ?thesis
    by (auto split: if_splits)
qed

lemma getattr_try_token:
  assumes "width n = Inr w" and "height n = Inr h" and "position n = Inr c"
    and "d1 \<in> set tokens" and "d2 \<in> set tokens"
  shows "getattr_try n d1 d2 =
    Inr (Pin (padd (padd (offset w h d1) (pscale 0.8 (offset w h d2))) c))"
proof -
  obtain od where "offset_dict n = Inr od" "getitem od d1 = Inr (offset w h d1)"
    "getitem od d2 = Inr (offset w h d2)"
    using offset_dict_getitem [OF assms(1,2)] assms(4,5) by auto
  then show ?thesis using assms(3) by (simp add: getattr_try_def)
qed

text \<open>
  C4. For every shape and all tokens \<open>d1\<close>, \<open>d2\<close> among top, bottom, left and right,
  the attribute \<open>d1_d2\<close> of the node is a pin at the position plus the offset of \<open>d1\<close>
  plus \<open>0.8\<close> times the offset of \<open>d2\<close>. The attribute access takes no alignment
  target, so none is applied.
\<close>

theorem compound_token_pin:
  assumes "is_shape n" and "d1 \<in> set tokens" and "d2 \<in> set tokens"
  shows "\<exists>w h c. width n = Inr w \<and> height n = Inr h \<and> position n = Inr c \<and>
     getattr n (d1 @ ''_'' @ d2) =
       Inr (Pin (padd c (padd (offset w h d1) (pscale 0.8 (offset w h d2)))))"
proof -
  obtain w h c where whc: "width n = Inr w" "height n = Inr h" "position n = Inr c"
    using is_shape_defined [OF assms(1)] by blast
  have "getattr n (d1 @ ''_'' @ d2) =
      Inr (Pin (padd (padd (offset w h d1) (pscale 0.8 (offset w h d2))) c))"
    using split_us_compound [OF assms(2,3)] getattr_try_token [OF whc assms(2,3)]
    by (simp add: getattr_def)
  moreover have "padd a b = padd b a" for a b by (simp add: padd_def)
  ultimately show ?thesis using whc by metis
qed

theorem compound_token_pin_witness:
  "getattr \<lparr>obj = Rectangle (0, 0) 4 2, shape = ''rectangle'',
      path = [(0, 0), (4, 0), (4, 2), (0, 2), (0, 0)]\<rparr> ''top_left'' = Inr (Pin (2 / 5, 2))"
proof -
  let ?n = "\<lparr>obj = Rectangle (0, 0) 4 2, shape = ''rectangle'',
      path = [(0, 0), (4, 0), (4, 2), (0, 2), (0, 0)]\<rparr>"
  have h1: "is_shape ?n" by (simp add: is_shape_def)
  have h2: "''top'' \<in> set tokens" and h3: "''left'' \<in> set tokens" by (simp_all add: tokens_def)
  from compound_token_pin [OF h1 h2 h3] obtain w h c where
    "width ?n = Inr w" "height ?n = Inr h" "position ?n = Inr c"
    and g: "getattr ?n (''top'' @ ''_'' @ ''left'') =
      Inr (Pin (padd c (padd (offset w h ''top'') (pscale 0.8 (offset w h ''left'')))))"
    by blast
  then have "w = 4" "h = 2" "c = (2, 1)"
    by (auto simp: width_def height_def position_def)
  with g show ?thesis by (simp add: offset_def padd_def pscale_def)
qed

text \<open>
  C8. For a string that is none of the four tokens, \<^verbatim>\<open>pin\<close> returns no pin: it
  raises, and on every shape what it raises is the \<^verbatim>\<open>KeyError\<close> of the dictionary
  lookup. For a name that is not two of the tokens joined by an underscore, the attribute
  access raises \<^verbatim>\<open>AttributeError\<close> with that name. These two exceptions are what the
  specification calls the invalid-direction condition.
\<close>

theorem unknown_token_fails:
  "(s \<notin> set tokens \<longrightarrow>
      (\<exists>e. pin I n (Str s) al = Inl e) \<and>
      (is_shape n \<longrightarrow> pin I n (Str s) al = Inl (KeyError s))) \<and>
   (name \<notin> set compound_names \<longrightarrow> getattr n name = Inl (AttributeError name))"
proof (intro conjI impI)
  assume s: "s \<notin> set tokens"
  show "\<exists>e. pin I n (Str s) al = Inl e"
  proof (cases "offset_dict n")
    case (Inl e)
    then show ?thesis by (simp add: pin_def)
  next
    case (Inr od)
    then obtain w h where "width n = Inr w" "height n = Inr h"
      by (auto simp: offset_dict_def split: sum.splits)
    from offset_dict_getitem [OF this] Inr s have "getitem od s = Inl (KeyError s)" by auto
    then show ?thesis using Inr by (simp add: pin_def)
  qed
  assume "is_shape n"
  then obtain w h where "width n = Inr w" "height n = Inr h"
    using is_shape_defined by blast
  from offset_dict_getitem [OF this] s obtain od where
    "offset_dict n = Inr od" "getitem od s = Inl (KeyError s)" by auto
  then show "pin I n (Str s) al = Inl (KeyError s)" by (simp add: pin_def)
next
  assume nm: "name \<notin> set compound_names"
  have "getattr n name \<noteq> Inr p" for p
  proof
    assume "getattr n name = Inr p"
    then obtain d1 d2 where sp: "split_us name = [d1, d2]" and "getattr_try n d1 d2 = Inr p"
      by (auto simp: getattr_def split: list.splits sum.splits)
    then have "d1 \<in> set tokens" "d2 \<in> set tokens" using getattr_try_Inr by blast+
    moreover have "name = d1 @ ''_'' @ d2" using sp by (rule split_us_two)
    ultimately show False using nm compound_names_iff by blast
  qed
  moreover have "getattr n name = Inl e \<Longrightarrow> e = AttributeError name" for e
    by (auto simp: getattr_def split: list.splits sum.splits)
  ultimately show "getattr n name = Inl (AttributeError name)"
    by (cases "getattr n name") auto
qed

theorem unknown_token_fails_witness:
  "pin (\<lambda>p t a. Inr a) \<lparr>obj = Circle (1, 2) 3, shape = ''circle'',
      path = [(4, 2), (1, 5), (-2, 2), (1, -1), (4, 2)]\<rparr> (Str ''center'') None
     = Inl (KeyError ''center'') \<and>
   getattr \<lparr>obj = Circle (1, 2) 3, shape = ''circle'',
      path = [(4, 2), (1, 5), (-2, 2), (1, -1), (4, 2)]\<rparr> ''top_middle''
     = Inl (AttributeError ''top_middle'')"
proof -
  let ?n = "\<lparr>obj = Circle (1, 2) 3, shape = ''circle'',
      path = [(4, 2), (1, 5), (-2, 2), (1, -1), (4, 2)]\<rparr>"
  have h1: "''center'' \<notin> set tokens" by (simp add: tokens_def)
  have h2: "is_shape ?n" by (simp add: is_shape_def)
  have h3: "''top_middle'' \<notin> set compound_names" by (simp add: compound_names_def tokens_def)
  from unknown_token_fails [of "''center''" "\<lambda>p t a. Inr a" ?n None "''top_middle''"] h1 h2 h3
  show ?thesis by blast
qed



text \<open>
  C5. For every shape, every single token and an alignment target whose position is
  \<open>P\<close>: for left and right the pin has the y coordinate of \<open>P\<close> and the x coordinate
  of the pin without alignment; for top and bottom it has the x coordinate of \<open>P\<close> and
  the y coordinate of the pin without alignment.
\<close>

theorem aligned_pin:
  assumes "is_shape n" and "s \<in> set tokens" and "EdgeNode_position a = Inr P"
  shows "\<exists>u r. pin I n (Str s) None = Inr (Pin u) \<and> pin I n (Str s) (Some a) = Inr (Pin r) \<and>
     (s = ''left'' \<or> s = ''right'' \<longrightarrow> snd r = snd P \<and> fst r = fst u) \<and>
     (s = ''top'' \<or> s = ''bottom'' \<longrightarrow> fst r = fst P \<and> snd r = snd u)"
proof -
  obtain w h c where whc: "width n = Inr w" "height n = Inr h" "position n = Inr c"
    using is_shape_defined [OF assms(1)] by blast
  let ?u = "padd (offset w h s) c"
  let ?r = "if s \<in> set [''bottom'', ''top''] then (fst P, snd ?u) else (fst ?u, snd P)"
  have "pin I n (Str s) None = Inr (Pin ?u)"
    using pin_unaligned [OF whc assms(2)] .
  moreover have "pin I n (Str s) (Some a) = Inr (Pin ?r)"
    using pin_aligned [OF whc assms(2,3)] .
  moreover have "s = ''left'' \<or> s = ''right'' \<longrightarrow> snd ?r = snd P \<and> fst ?r = fst ?u"
    by auto
  moreover have "s = ''top'' \<or> s = ''bottom'' \<longrightarrow> fst ?r = fst P \<and> snd ?r = snd ?u"
    by auto
  ultimately show ?thesis by blast
qed

theorem aligned_pin_witness:
  "pin (\<lambda>p t a. Inr a) \<lparr>obj = Rectangle (0, 0) 4 2, shape = ''rectangle'',
      path = [(0, 0), (4, 0), (4, 2), (0, 2), (0, 0)]\<rparr> (Str ''right'') (Some (APin (Pin (10, 7))))
     = Inr (Pin (4, 7)) \<and>
   pin (\<lambda>p t a. Inr a) \<lparr>obj = Rectangle (0, 0) 4 2, shape = ''rectangle'',
      path = [(0, 0), (4, 0), (4, 2), (0, 2), (0, 0)]\<rparr> (Str ''top'') (Some (APin (Pin (10, 7))))
     = Inr (Pin (10, 2))"
proof -
  let ?n = "\<lparr>obj = Rectangle (0, 0) 4 2, shape = ''rectangle'',
      path = [(0, 0), (4, 0), (4, 2), (0, 2), (0, 0)]\<rparr>"
  let ?I = "\<lambda>(p :: point list) (t :: real) (a :: point). (Inr a :: error + point)"
  let ?a = "APin (Pin (10, 7))"
  have h1: "is_shape ?n" by (simp add: is_shape_def)
  have h2: "''right'' \<in> set tokens" and h3: "''top'' \<in> set tokens"
    by (simp_all add: tokens_def)
  have h4: "EdgeNode_position ?a = Inr (10, 7)" by simp
  have ur: "pin ?I ?n (Str ''right'') None = Inr (Pin (4, 1))"
    and ut: "pin ?I ?n (Str ''top'') None = Inr (Pin (2, 2))"
    by (simp_all add: pin_def offset_dict_def width_def height_def getitem_def position_def
        padd_def)
  from aligned_pin [OF h1 h2 h4, of ?I] ur
  have "pin ?I ?n (Str ''right'') (Some ?a) = Inr (Pin (4, 7))"
    by (auto simp: prod_eq_iff)
  moreover from aligned_pin [OF h1 h3 h4, of ?I] ut
  have "pin ?I ?n (Str ''top'') (Some ?a) = Inr (Pin (10, 2))"
    by (auto simp: prod_eq_iff)
  ultimately show ?thesis by simp
qed

text \<open>
  C9. Whenever the width and the height of a node differ, the attributes
  \<open>top_left\<close> and \<open>left_top\<close> are both pins and they are different points.
\<close>

theorem compound_order_matters:
  assumes "width n = Inr w" and "height n = Inr h" and "w \<noteq> h"
  shows "\<exists>p q. getattr n ''top_left'' = Inr (Pin p) \<and> getattr n ''left_top'' = Inr (Pin q) \<and>
     p \<noteq> q \<and> getattr n ''top_left'' \<noteq> getattr n ''left_top''"
proof -
  obtain c where c: "position n = Inr c" using width_defined_position [OF assms(1)] by blast
  have t: "''top'' \<in> set tokens" and l: "''left'' \<in> set tokens" by (simp_all add: tokens_def)
  let ?p = "padd (padd (offset w h ''top'') (pscale 0.8 (offset w h ''left''))) c"
  let ?q = "padd (padd (offset w h ''left'') (pscale 0.8 (offset w h ''top''))) c"
  have p: "getattr n ''top_left'' = Inr (Pin ?p)"
    using split_us_compound [OF t l] getattr_try_token [OF assms(1,2) c t l]
    by (simp add: getattr_def)
  have q: "getattr n ''left_top'' = Inr (Pin ?q)"
    using split_us_compound [OF l t] getattr_try_token [OF assms(1,2) c l t]
    by (simp add: getattr_def)
  have "w \<noteq> 0 \<or> h \<noteq> 0" using assms(3) by auto
  then have "?p \<noteq> ?q" by (auto simp: offset_def padd_def pscale_def)
  then show ?thesis using p q by auto
qed

theorem compound_order_matters_witness:
  "getattr \<lparr>obj = Rectangle (0, 0) 4 2, shape = ''rectangle'',
      path = [(0, 0), (4, 0), (4, 2), (0, 2), (0, 0)]\<rparr> ''top_left''
   \<noteq> getattr \<lparr>obj = Rectangle (0, 0) 4 2, shape = ''rectangle'',
      path = [(0, 0), (4, 0), (4, 2), (0, 2), (0, 0)]\<rparr> ''left_top''"
proof -
  let ?n = "\<lparr>obj = Rectangle (0, 0) 4 2, shape = ''rectangle'',
      path = [(0, 0), (4, 0), (4, 2), (0, 2), (0, 0)]\<rparr>"
  have h1: "width ?n = Inr 4" and h2: "height ?n = Inr 2"
    by (simp_all add: width_def height_def)
  have h3: "(4 :: real) \<noteq> 2" by simp
  from compound_order_matters [OF h1 h2 h3] show ?thesis by blast
qed

end
